theory Spec2Isabelle
  imports Complex_Main "HOL-Library.Sublist"
begin

section \<open>Python strings\<close>

text \<open>
  A Python \<open>str\<close> is a sequence of Unicode code points and \<open>len\<close> counts code points
  (the corpus is Arabic text), so a character is modelled by its code point and a
  string by a list of code points.
\<close>

type_synonym uchar = nat
type_synonym ustr = "uchar list"

abbreviation NL :: uchar where "NL \<equiv> 10"
abbreviation CR :: uchar where "CR \<equiv> 13"
abbreviation TAB :: uchar where "TAB \<equiv> 9"
abbreviation SP :: uchar where "SP \<equiv> 32"

text \<open>
  \<open>str.isspace\<close> of one code point; the same class is what \<open>str.strip()\<close> removes and
  what \<open>\s\<close> matches in a \<open>str\<close> pattern of \<open>re\<close>.
\<close>

definition isspace :: "uchar \<Rightarrow> bool" where
  "isspace c \<longleftrightarrow>
     (9 \<le> c \<and> c \<le> 13) \<or> (28 \<le> c \<and> c \<le> 32) \<or> c = 133 \<or> c = 160 \<or> c = 5760 \<or>
     (8192 \<le> c \<and> c \<le> 8202) \<or> c = 8232 \<or> c = 8233 \<or> c = 8239 \<or> c = 8287 \<or> c = 12288"

text \<open>\<open>s.strip()\<close>: whitespace removed from both ends.\<close>

definition strip :: "ustr \<Rightarrow> ustr" where
  "strip s = rev (dropWhile isspace (rev (dropWhile isspace s)))"

text \<open>
  Python slice bounds: a negative bound counts from the end, and every bound is clamped
  into \<open>0..len\<close>.
\<close>

definition slice_bound :: "nat \<Rightarrow> int \<Rightarrow> nat" where
  "slice_bound n i = (if i < 0 then nat (max 0 (int n + i)) else min n (nat i))"

text \<open>\<open>xs[i:j]\<close>\<close>

definition py_slice :: "'a list \<Rightarrow> int \<Rightarrow> int \<Rightarrow> 'a list" where
  "py_slice xs i j =
     (let a = slice_bound (length xs) i; b = slice_bound (length xs) j
      in take (b - a) (drop a xs))"

text \<open>\<open>xs[i:]\<close>\<close>

definition py_slice_from :: "'a list \<Rightarrow> int \<Rightarrow> 'a list" where
  "py_slice_from xs i = drop (slice_bound (length xs) i) xs"

section \<open>Paragraph Chunker (prepare\_axolotl\_cpt.py)\<close>

text \<open>
  \<open>re.split(r"\n\s*\n", text)\<close>. A match starts at a newline; the greedy \<open>\s*\<close> runs
  over the whitespace that follows and backtracks to the last newline of that run.
  \<open>para_sep_len rest\<close> is the number of characters the match takes after its first
  newline, or \<open>None\<close> when the whitespace run after it holds no newline.
\<close>

definition para_sep_len :: "ustr \<Rightarrow> nat option" where
  "para_sep_len rest =
     (let run = takeWhile isspace rest
      in if NL \<in> set run
         then Some (length run - length (takeWhile (\<lambda>c. c \<noteq> NL) (rev run)))
         else None)"

fun split_paras_from :: "ustr \<Rightarrow> ustr \<Rightarrow> ustr list" where
  "split_paras_from cur [] = [rev cur]"
| "split_paras_from cur (c # rest) =
     (if c = NL then
        (case para_sep_len rest of
           Some k \<Rightarrow> rev cur # split_paras_from [] (drop k rest)
         | None \<Rightarrow> split_paras_from (c # cur) rest)
      else split_paras_from (c # cur) rest)"

definition split_paras :: "ustr \<Rightarrow> ustr list" where
  "split_paras text = split_paras_from [] text"

text \<open>\<open>paras = [p.strip() for p in re.split(...) if p.strip()]\<close>\<close>

definition paragraphs :: "ustr \<Rightarrow> ustr list" where
  "paragraphs text = map strip (filter (\<lambda>p. strip p \<noteq> []) (split_paras text))"

text \<open>
  The accumulation loop \<open>for p in paras\<close>, the state being \<open>(chunks, buf)\<close>.
\<close>

fun accumulate :: "ustr list \<Rightarrow> int \<Rightarrow> int \<Rightarrow> ustr list \<Rightarrow> ustr \<Rightarrow> ustr list \<times> ustr" where
  "accumulate [] max_chars overlap_chars chunks buf = (chunks, buf)"
| "accumulate (p # ps) max_chars overlap_chars chunks buf =
     (if buf = [] then accumulate ps max_chars overlap_chars chunks p
      else if int (length buf) + int (length p) + 2 \<le> max_chars
      then accumulate ps max_chars overlap_chars chunks (buf @ [NL, NL] @ p)
      else accumulate ps max_chars overlap_chars (chunks @ [strip buf])
             (strip ((if overlap_chars > 0 then py_slice_from buf (- overlap_chars) else [])
                     @ [NL, NL] @ p)))"

text \<open>\<open>if buf: chunks.append(buf.strip())\<close>\<close>

definition accumulated_chunks :: "ustr \<Rightarrow> int \<Rightarrow> int \<Rightarrow> ustr list" where
  "accumulated_chunks text max_chars overlap_chars =
     (case accumulate (paragraphs text) max_chars overlap_chars [] [] of
        (chunks, buf) \<Rightarrow> if buf \<noteq> [] then chunks @ [strip buf] else chunks)"

text \<open>
  The window loop \<open>while start < len(c)\<close> of the fallback. Nothing in the source bounds
  the number of its iterations, so it is a partial function: \<open>None\<close> is the loop that
  never ends.
\<close>

partial_function (option) hard_split ::
  "ustr \<Rightarrow> int \<Rightarrow> int \<Rightarrow> int \<Rightarrow> ustr list \<Rightarrow> ustr list option" where
  "hard_split c max_chars overlap_chars start hardened =
     (if start < int (length c) then
        (let end = min (start + max_chars) (int (length c));
             hardened' = hardened @ [strip (py_slice c start end)]
         in if end \<ge> int (length c) then Some hardened'
            else hard_split c max_chars overlap_chars (max 0 (end - overlap_chars)) hardened')
      else Some hardened)"

text \<open>The loop \<open>for c in chunks\<close> around it.\<close>

fun harden :: "ustr list \<Rightarrow> int \<Rightarrow> int \<Rightarrow> ustr list \<Rightarrow> ustr list option" where
  "harden [] max_chars overlap_chars hardened = Some hardened"
| "harden (c # cs) max_chars overlap_chars hardened =
     (if int (length c) \<le> max_chars then harden cs max_chars overlap_chars (hardened @ [c])
      else (case hard_split c max_chars overlap_chars 0 hardened of
              None \<Rightarrow> None
            | Some hardened' \<Rightarrow> harden cs max_chars overlap_chars hardened'))"

definition chunk_text_paragraphwise :: "ustr \<Rightarrow> int \<Rightarrow> int \<Rightarrow> ustr list option" where
  "chunk_text_paragraphwise text max_chars overlap_chars =
     map_option (filter (\<lambda>c. c \<noteq> []))
       (harden (accumulated_chunks text max_chars overlap_chars) max_chars overlap_chars [])"

section \<open>Chunk Capper and Dataset Assembler (prepare\_axolotl\_cpt.py)\<close>

datatype error = ValueError ustr | IndexError

text \<open>
  The seeded \<open>random.Random\<close> object belongs to the Python runtime. Its state is a value
  of a type \<open>'g\<close>, and the two methods the program calls are parameters that take the
  state and return the state after the call:
  \<open>sample rng n k\<close> for \<open>rng.sample(range(n), k)\<close> and
  \<open>shuffle rng xs\<close> for \<open>rng.shuffle(xs)\<close> (which permutes \<open>xs\<close> in place).
\<close>

text \<open>\<open>[chunks[i] for i in idxs]\<close>; an index out of range raises.\<close>

fun pick :: "'a list \<Rightarrow> nat list \<Rightarrow> error + 'a list" where
  "pick chunks [] = Inr []"
| "pick chunks (i # idxs) =
     (if i < length chunks then
        (case pick chunks idxs of Inl e \<Rightarrow> Inl e | Inr rest \<Rightarrow> Inr (chunks ! i # rest))
      else Inl IndexError)"

definition maybe_cap_chunks ::
  "('g \<Rightarrow> nat \<Rightarrow> nat \<Rightarrow> nat list \<times> 'g) \<Rightarrow> 'a list \<Rightarrow> int \<Rightarrow> 'g \<Rightarrow> error + ('a list \<times> 'g)" where
  "maybe_cap_chunks sample chunks cap rng =
     (if cap \<le> 0 \<or> int (length chunks) \<le> cap then Inr (chunks, rng)
      else (case sample rng (length chunks) (nat cap) of
              (drawn, rng') \<Rightarrow>
                (case pick chunks (sort drawn) of
                   Inl e \<Rightarrow> Inl e
                 | Inr kept \<Rightarrow> Inr (kept, rng'))))"

text \<open>
  The capping step of \<open>main\<close> for one document: \<open>before\<close>, the call, \<open>after\<close>, and the
  counter \<open>chunks_capped_away\<close> of the document's category.
\<close>

definition cap_document ::
  "('g \<Rightarrow> nat \<Rightarrow> nat \<Rightarrow> nat list \<times> 'g) \<Rightarrow> 'a list \<Rightarrow> int \<Rightarrow> 'g \<Rightarrow> nat
     \<Rightarrow> error + ('a list \<times> 'g \<times> nat)" where
  "cap_document sample chunks cap rng capped_away =
     (let before = length chunks in
      case maybe_cap_chunks sample chunks cap rng of
        Inl e \<Rightarrow> Inl e
      | Inr (chunks', rng') \<Rightarrow>
          (let after = length chunks' in
           Inr (chunks', rng',
                if after < before then capped_away + (before - after) else capped_away)))"

text \<open>The loop \<open>for fp in files\<close> of \<open>main\<close>, as far as it touches the generator.\<close>

fun cap_documents ::
  "('g \<Rightarrow> nat \<Rightarrow> nat \<Rightarrow> nat list \<times> 'g) \<Rightarrow> 'a list list \<Rightarrow> int \<Rightarrow> 'g \<Rightarrow> nat
     \<Rightarrow> error + ('a list list \<times> 'g \<times> nat)" where
  "cap_documents sample [] cap rng capped_away = Inr ([], rng, capped_away)"
| "cap_documents sample (chunks # docs) cap rng capped_away =
     (case cap_document sample chunks cap rng capped_away of
        Inl e \<Rightarrow> Inl e
      | Inr (chunks', rng', capped_away') \<Rightarrow>
          (case cap_documents sample docs cap rng' capped_away' of
             Inl e \<Rightarrow> Inl e
           | Inr (docs', rng'', capped_away'') \<Rightarrow> Inr (chunks' # docs', rng'', capped_away'')))"

text \<open>The generator state a run of the loop leaves behind (or the error it raised).\<close>

definition rng_after :: "error + ('a \<times> 'g \<times> nat) \<Rightarrow> error + 'g" where
  "rng_after r = (case r of Inl e \<Rightarrow> Inl e | Inr (x, rng, n) \<Rightarrow> Inr rng)"

text \<open>A document that \<open>maybe_cap_chunks\<close> does not return unchanged at its first test.\<close>

definition over_cap :: "int \<Rightarrow> 'a list \<Rightarrow> bool" where
  "over_cap cap chunks \<longleftrightarrow> \<not> (cap \<le> 0 \<or> int (length chunks) \<le> cap)"

text \<open>
  \<open>int(x)\<close> of a finite float: truncation toward zero. The product
  \<open>len(all_records) * args.val_ratio\<close> is a double-precision product of the runtime; its
  value enters the model as \<open>times_val_ratio (len all_records)\<close>, a real number.
\<close>

definition int_trunc :: "real \<Rightarrow> int" where
  "int_trunc x = (if 0 \<le> x then \<lfloor>x\<rfloor> else \<lceil>x\<rceil>)"

text \<open>\<open>xs[:j]\<close>\<close>

definition py_slice_to :: "'a list \<Rightarrow> int \<Rightarrow> 'a list" where
  "py_slice_to xs j = take (slice_bound (length xs) j) xs"

text \<open>\<open>val_size = max(1, int(len(all_records) * args.val_ratio)) if all_records else 0\<close>\<close>

definition val_size_of :: "(nat \<Rightarrow> real) \<Rightarrow> 'a list \<Rightarrow> int" where
  "val_size_of times_val_ratio all_records =
     (if all_records \<noteq> [] then max 1 (int_trunc (times_val_ratio (length all_records))) else 0)"

text \<open>
  The shuffle and the split of \<open>main\<close>; the result is \<open>(val_records, train_records)\<close>.
\<close>

definition split_train_val ::
  "('g \<Rightarrow> 'a list \<Rightarrow> 'a list \<times> 'g) \<Rightarrow> (nat \<Rightarrow> real) \<Rightarrow> 'a list \<Rightarrow> 'g \<Rightarrow> 'a list \<times> 'a list" where
  "split_train_val shuffle times_val_ratio all_records rng =
     (case shuffle rng all_records of
        (shuffled, rng') \<Rightarrow>
          (let val_size = val_size_of times_val_ratio shuffled
           in (py_slice_to shuffled val_size, py_slice_from shuffled val_size)))"

text \<open>
  Two deterministic generators on which the theorems below are instantiated: the state
  is a counter, \<open>rotating_sample\<close> draws from the range rotated by the counter, and
  \<open>rev_shuffle\<close> reverses.
\<close>

definition rotating_sample :: "nat \<Rightarrow> nat \<Rightarrow> nat \<Rightarrow> nat list \<times> nat" where
  "rotating_sample g n k = (rev (take k (rotate g [0..<n])), g + k)"

definition rev_shuffle :: "nat \<Rightarrow> 'a list \<Rightarrow> 'a list \<times> nat" where
  "rev_shuffle g xs = (rev xs, Suc g)"

section \<open>Properties of the Paragraph Chunker\<close>

lemma length_strip_le: "length (strip s) \<le> length s"
  unfolding strip_def
  by (metis length_dropWhile_le length_rev le_trans)

lemma length_py_slice_le:
  "0 \<le> i \<Longrightarrow> i \<le> j \<Longrightarrow> int (length (py_slice xs i j)) \<le> j - i"
  unfolding py_slice_def slice_bound_def Let_def
  by (auto split: if_splits)

text \<open>
  With a positive maximum and an overlap below it, every pass of the window loop moves
  \<open>start\<close> forward, so the loop ends, and every window it appends is at most
  \<open>max_chars\<close> long.
\<close>

lemma hard_split_terminates:
  assumes "0 < M" "ov < M"
  shows "0 \<le> start \<Longrightarrow> \<forall>h\<in>set hardened. int (length h) \<le> M \<Longrightarrow>
    \<exists>out. hard_split c M ov start hardened = Some out \<and> (\<forall>h\<in>set out. int (length h) \<le> M)"
proof (induction "nat (int (length c) - start)" arbitrary: start hardened rule: less_induct)
  case less
  show ?case
  proof (cases "start < int (length c)")
    case False
    then show ?thesis using less.prems by (subst hard_split.simps) simp
  next
    case True
    let ?e = "min (start + M) (int (length c))"
    let ?h = "hardened @ [strip (py_slice c start ?e)]"
    have le: "start \<le> ?e" using True assms by simp
    have "int (length (py_slice c start ?e)) \<le> ?e - start"
      using length_py_slice_le[OF less.prems(1) le] .
    then have "int (length (strip (py_slice c start ?e))) \<le> M"
      using length_strip_le[of "py_slice c start ?e"] by simp
    then have hs: "\<forall>h\<in>set ?h. int (length h) \<le> M" using less.prems(2) by simp
    show ?thesis
    proof (cases "?e \<ge> int (length c)")
      case True
      then show ?thesis using \<open>start < int (length c)\<close> hs
        by (subst hard_split.simps) (simp add: Let_def)
    next
      case False
      let ?s = "max 0 (?e - ov)"
      have e: "?e = start + M" using False by simp
      have "nat (int (length c) - ?s) < nat (int (length c) - start)"
        using assms True less.prems(1) e by simp
      moreover have "0 \<le> ?s" by simp
      ultimately obtain out where "hard_split c M ov ?s ?h = Some out"
         "\<forall>h\<in>set out. int (length h) \<le> M"
        using less.hyps[of ?s ?h] hs by blast
      then show ?thesis using \<open>start < int (length c)\<close> False
        by (subst hard_split.simps) (simp add: Let_def)
    qed
  qed
qed

lemma harden_bounded:
  assumes "0 < M" "ov < M"
  shows "\<forall>h\<in>set hardened. int (length h) \<le> M \<Longrightarrow>
    \<exists>out. harden cs M ov hardened = Some out \<and> (\<forall>h\<in>set out. int (length h) \<le> M)"
proof (induction cs arbitrary: hardened)
  case Nil
  then show ?case by simp
next
  case (Cons c cs)
  show ?case
  proof (cases "int (length c) \<le> M")
    case True
    then have "\<forall>h\<in>set (hardened @ [c]). int (length h) \<le> M" using Cons.prems by simp
    from Cons.IH[OF this] True show ?thesis by simp
  next
    case False
    obtain mid where mid: "hard_split c M ov 0 hardened = Some mid"
      "\<forall>h\<in>set mid. int (length h) \<le> M"
      using hard_split_terminates[OF assms, of 0 hardened c] Cons.prems by auto
    from Cons.IH[OF mid(2)] mid(1) False show ?thesis by simp
  qed
qed

text \<open>
  With an overlap that is not below a positive maximum, a window that does not reach
  the end of the chunk is followed by a window that starts no later: the loop never
  returns.
\<close>

lemma hard_split_stuck:
  assumes "hard_split c M ov start hardened = Some out"
  shows "\<not> (0 < M \<and> M \<le> ov \<and> 0 \<le> start \<and> start + M < int (length c))"
proof (rule hard_split.raw_induct
    [where P = "\<lambda>c M ov start hardened out.
       \<not> (0 < M \<and> M \<le> ov \<and> 0 \<le> start \<and> start + M < int (length c))", OF _ assms])
  fix f c M ov start hardened out
  assume IH: "\<And>c M ov start hardened out. f c M ov start hardened = Some out \<Longrightarrow>
       \<not> (0 < M \<and> M \<le> ov \<and> 0 \<le> start \<and> start + M < int (length c))"
    and step: "(if start < int (length c) then
        (let end = min (start + M) (int (length c));
             hardened' = hardened @ [strip (py_slice c start end)]
         in if end \<ge> int (length c) then Some hardened'
            else f c M ov (max 0 (end - ov)) hardened')
      else Some hardened) = Some out"
  show "\<not> (0 < M \<and> M \<le> ov \<and> 0 \<le> start \<and> start + M < int (length c))"
  proof
    assume inv: "0 < M \<and> M \<le> ov \<and> 0 \<le> start \<and> start + M < int (length c)"
    then have e: "min (start + M) (int (length c)) = start + M" by simp
    from inv step e have
      "f c M ov (max 0 (start + M - ov)) (hardened @ [strip (py_slice c start (start + M))])
         = Some out"
      by (simp add: Let_def)
    from IH[OF this] inv show False by auto
  qed
qed

lemma hard_split_diverges:
  "0 < M \<Longrightarrow> M \<le> ov \<Longrightarrow> 0 \<le> start \<Longrightarrow> start + M < int (length c) \<Longrightarrow>
     hard_split c M ov start hardened = None"
  using hard_split_stuck[of c M ov start hardened] by (cases "hard_split c M ov start hardened") auto

text \<open>
  C1. For every text, every maximum \<open>M > 0\<close> and every overlap \<open>0 \<le> ov < M\<close>, the
  Paragraph Chunker returns, and every chunk of the list it returns is at most \<open>M\<close>
  characters long, whether the chunk comes from the paragraph accumulation or from the
  hard-split fallback.
\<close>

theorem chunk_text_paragraphwise_bounded:
  assumes "0 < M" "0 \<le> ov" "ov < M"
  shows "\<exists>chunks. chunk_text_paragraphwise text M ov = Some chunks \<and>
           (\<forall>c\<in>set chunks. int (length c) \<le> M)"
proof -
  obtain out where "harden (accumulated_chunks text M ov) M ov [] = Some out"
    "\<forall>h\<in>set out. int (length h) \<le> M"
    using harden_bounded[OF assms(1,3), of "[]" "accumulated_chunks text M ov"] by auto
  then show ?thesis by (simp add: chunk_text_paragraphwise_def)
qed

lemma accumulated_chunks_aaa: "accumulated_chunks [97, 97, 97] 2 2 = [[97, 97, 97]]"
  by (simp add: accumulated_chunks_def paragraphs_def split_paras_def strip_def isspace_def)

lemma chunk_aaabbb: "chunk_text_paragraphwise [97, 97, 97, 98, 98, 98] 4 1
   = Some [[97, 97, 97, 98], [98, 98, 98]]"
  by (simp add: chunk_text_paragraphwise_def accumulated_chunks_def paragraphs_def
      split_paras_def strip_def isspace_def py_slice_def slice_bound_def
      hard_split.simps[of _ _ _ 0] hard_split.simps[of _ _ _ 3])

theorem chunk_text_paragraphwise_bounded_witness:
  "(0::int) < 4 \<and> (0::int) \<le> 1 \<and> (1::int) < 4 \<and>
   (\<exists>chunks. chunk_text_paragraphwise [97, 97, 97, 98, 98, 98] 4 1 = Some chunks \<and>
      (\<forall>c\<in>set chunks. int (length c) \<le> 4))"
  using chunk_text_paragraphwise_bounded[of 4 1 "[97, 97, 97, 98, 98, 98]"] by simp

text \<open>
  C2. The claim is that the hard-split fallback ends for every overlap, also one that is
  not below the maximum. The source computes the next start as
  \<open>max(0, end - overlap_chars)\<close>: with \<open>max_chars = 2\<close>, \<open>overlap_chars = 2\<close> and the
  three-character text \<open>aaa\<close> the start stays 0 and the chunker never returns.
\<close>

theorem chunk_text_paragraphwise_overlap_ge_max_diverges:
  "chunk_text_paragraphwise [97, 97, 97] 2 2 = None"
  by (simp add: chunk_text_paragraphwise_def accumulated_chunks_aaa hard_split_diverges)

section \<open>Properties of the Chunk Capper\<close>

lemma pick_in_range:
  "set idxs \<subseteq> {..<length chunks} \<Longrightarrow> pick chunks idxs = Inr (map ((!) chunks) idxs)"
  by (induction idxs) auto

lemma sorted_distinct_is_filter:
  assumes "sorted idxs" "distinct idxs" "set idxs \<subseteq> {..<n}"
  shows "idxs = filter (\<lambda>i. i \<in> set idxs) [0..<n]"
proof (rule sorted_distinct_set_unique)
  show "sorted idxs" "distinct idxs" by fact+
  show "sorted (filter (\<lambda>i. i \<in> set idxs) [0..<n])" by (simp add: sorted_wrt_filter)
  show "distinct (filter (\<lambda>i. i \<in> set idxs) [0..<n])" by simp
  show "set idxs = set (filter (\<lambda>i. i \<in> set idxs) [0..<n])" using assms(3) by auto
qed

lemma subseq_map_nth:
  assumes "sorted idxs" "distinct idxs" "set idxs \<subseteq> {..<length xs}"
  shows "subseq (map ((!) xs) idxs) xs"
proof -
  have "subseq (map ((!) xs) (filter (\<lambda>i. i \<in> set idxs) [0..<length xs]))
               (map ((!) xs) [0..<length xs])"
    by (intro subseq_map subseq_filter_left)
  then show ?thesis
    using sorted_distinct_is_filter[OF assms] by (simp add: map_nth)
qed

lemma maybe_cap_chunks_under:
  "\<not> over_cap cap chunks \<Longrightarrow> maybe_cap_chunks sample chunks cap rng = Inr (chunks, rng)"
  by (auto simp: maybe_cap_chunks_def over_cap_def)

lemma cap_document_under:
  "\<not> over_cap cap chunks \<Longrightarrow> cap_document sample chunks cap rng n = Inr (chunks, rng, n)"
  by (simp add: cap_document_def maybe_cap_chunks_under)

lemma cap_documents_skip_under:
  "rng_after (cap_documents sample docs cap rng n)
     = rng_after (cap_documents sample (filter (over_cap cap) docs) cap rng n)"
proof (induction docs arbitrary: rng n)
  case Nil
  then show ?case by simp
next
  case (Cons d docs)
  show ?case
  proof (cases "over_cap cap d")
    case over: True
    show ?thesis
    proof (cases "cap_document sample d cap rng n")
      case (Inl e)
      then show ?thesis using over by (simp add: rng_after_def)
    next
      case (Inr r)
      obtain d' rng' n' where r: "r = (d', rng', n')" by (cases r) auto
      show ?thesis using over Inr r Cons.IH[of rng' n']
        by (simp add: rng_after_def split: sum.splits prod.splits)
    qed
  next
    case False
    then show ?thesis using Cons.IH[of rng n]
      by (simp add: cap_document_under rng_after_def split: sum.splits prod.splits)
  qed
qed

lemma maybe_cap_chunks_over:
  assumes "0 < cap" "cap < int (length chunks)"
    and "sample rng (length chunks) (nat cap) = (drawn, rng')"
    and "length drawn = nat cap" "distinct drawn" "set drawn \<subseteq> {..<length chunks}"
  shows "maybe_cap_chunks sample chunks cap rng = Inr (map ((!) chunks) (sort drawn), rng')"
  using assms by (simp add: maybe_cap_chunks_def pick_in_range)

lemma maybe_cap_chunks_sampled:
  assumes "0 < cap" "cap < int (length chunks)"
    and "sample rng (length chunks) (nat cap) = (drawn, rng')"
    and "length drawn = nat cap" "distinct drawn" "set drawn \<subseteq> {..<length chunks}"
  shows "\<exists>kept. maybe_cap_chunks sample chunks cap rng = Inr (kept, rng') \<and>
           kept = map ((!) chunks) (sort drawn) \<and>
           int (length kept) = cap \<and> set kept \<subseteq> set chunks \<and> subseq kept chunks \<and>
           cap_document sample chunks cap rng n
             = Inr (kept, rng', n + (length chunks - nat cap))"
proof -
  let ?kept = "map ((!) chunks) (sort drawn)"
  have m: "maybe_cap_chunks sample chunks cap rng = Inr (?kept, rng')"
    using assms by (rule maybe_cap_chunks_over)
  have len: "int (length ?kept) = cap" using assms(1,4) by simp
  have sub: "subseq ?kept chunks"
    using assms(5,6) by (intro subseq_map_nth) auto
  have "set ?kept \<subseteq> set chunks" using assms(6) by auto
  moreover have "cap_document sample chunks cap rng n
      = Inr (?kept, rng', n + (length chunks - nat cap))"
    using assms(1,2,4) by (auto simp add: cap_document_def m Let_def)
  ultimately show ?thesis using m len sub by blast
qed

text \<open>
  C3. For a chunk list of length \<open>N\<close> and a cap \<open>0 < cap < N\<close>, where the one draw
  \<open>rng.sample(range(N), cap)\<close> returns \<open>cap\<close> distinct indices below \<open>N\<close> (what
  sampling without replacement returns), the Chunk Capper returns exactly \<open>cap\<close>
  chunks: the chunks at the drawn indices taken in increasing index order, hence
  elements of the input in their original relative order; \<open>main\<close> adds \<open>N - cap\<close> to
  the capped-away counter; and when \<open>cap \<le> 0\<close> or \<open>N \<le> cap\<close> the list comes back
  unchanged.
\<close>

theorem maybe_cap_chunks_spec:
  "(cap \<le> 0 \<or> int (length chunks) \<le> cap \<longrightarrow>
      maybe_cap_chunks sample chunks cap rng = Inr (chunks, rng) \<and>
      cap_document sample chunks cap rng n = Inr (chunks, rng, n)) \<and>
   (0 < cap \<and> cap < int (length chunks) \<and>
    sample rng (length chunks) (nat cap) = (drawn, rng') \<and>
    length drawn = nat cap \<and> distinct drawn \<and> set drawn \<subseteq> {..<length chunks} \<longrightarrow>
      (\<exists>kept. maybe_cap_chunks sample chunks cap rng = Inr (kept, rng') \<and>
           kept = map ((!) chunks) (sort drawn) \<and>
           int (length kept) = cap \<and> set kept \<subseteq> set chunks \<and> subseq kept chunks \<and>
           cap_document sample chunks cap rng n
             = Inr (kept, rng', n + (length chunks - nat cap))))"
proof (intro conjI impI)
  assume u: "cap \<le> 0 \<or> int (length chunks) \<le> cap"
  then show "maybe_cap_chunks sample chunks cap rng = Inr (chunks, rng)"
    by (simp add: maybe_cap_chunks_under over_cap_def)
  from u show "cap_document sample chunks cap rng n = Inr (chunks, rng, n)"
    by (simp add: cap_document_under over_cap_def)
next
  assume "0 < cap \<and> cap < int (length chunks) \<and>
    sample rng (length chunks) (nat cap) = (drawn, rng') \<and>
    length drawn = nat cap \<and> distinct drawn \<and> set drawn \<subseteq> {..<length chunks}"
  then show "\<exists>kept. maybe_cap_chunks sample chunks cap rng = Inr (kept, rng') \<and>
           kept = map ((!) chunks) (sort drawn) \<and>
           int (length kept) = cap \<and> set kept \<subseteq> set chunks \<and> subseq kept chunks \<and>
           cap_document sample chunks cap rng n
             = Inr (kept, rng', n + (length chunks - nat cap))"
    using maybe_cap_chunks_sampled[of cap chunks sample rng drawn rng' n] by blast
qed

theorem maybe_cap_chunks_spec_witness:
  "((0::int) \<le> 0 \<or> int (length [10, 11, 12 :: nat]) \<le> 0) \<and>
   maybe_cap_chunks rotating_sample [10, 11, 12 :: nat] 0 7 = Inr ([10, 11, 12], 7) \<and>
   (0::int) < 2 \<and> (2::int) < int (length [10, 11, 12, 13, 14 :: nat]) \<and>
   rotating_sample 7 (length [10, 11, 12, 13, 14 :: nat]) (nat 2) = ([3, 2], 9) \<and>
   length [3, 2 :: nat] = nat 2 \<and> distinct [3, 2 :: nat] \<and>
   set [3, 2 :: nat] \<subseteq> {..<length [10, 11, 12, 13, 14 :: nat]} \<and>
   maybe_cap_chunks rotating_sample [10, 11, 12, 13, 14 :: nat] 2 7 = Inr ([12, 13], 9) \<and>
   cap_document rotating_sample [10, 11, 12, 13, 14 :: nat] 2 7 0 = Inr ([12, 13], 9, 3)"
proof -
  have s: "rotating_sample 7 (length [10, 11, 12, 13, 14 :: nat]) (nat 2) = ([3, 2], 9)"
    by code_simp
  have "sort [3, 2 :: nat] = [2, 3]" by code_simp
  then show ?thesis
    using s
      maybe_cap_chunks_spec[of 2 "[10, 11, 12, 13, 14 :: nat]" rotating_sample 7 0 "[3, 2]" 9]
      maybe_cap_chunks_spec[of 0 "[10, 11, 12 :: nat]" rotating_sample 7 0 "[]" 7]
    by simp
qed

text \<open>
  C10. When the cap is non-positive or the chunk list has at most \<open>cap\<close> elements, the
  Chunk Capper returns its input and the generator in the state it received. Hence the
  generator state a run over a list of documents leaves behind (for the cappings and
  the shuffle that follow) is the one the run over the over-cap documents alone
  leaves behind.
\<close>

theorem maybe_cap_chunks_frame:
  "(cap \<le> 0 \<or> int (length chunks) \<le> cap \<longrightarrow>
      maybe_cap_chunks sample chunks cap rng = Inr (chunks, rng)) \<and>
   rng_after (cap_documents sample docs cap rng n)
     = rng_after (cap_documents sample (filter (over_cap cap) docs) cap rng n)"
  using cap_documents_skip_under[of sample docs cap rng n]
  by (simp add: maybe_cap_chunks_def)

theorem maybe_cap_chunks_frame_witness:
  "((2::int) \<le> 0 \<or> int (length [10, 11 :: nat]) \<le> 2) \<and>
   maybe_cap_chunks rotating_sample [10, 11 :: nat] 2 7 = Inr ([10, 11], 7) \<and>
   rng_after (cap_documents rotating_sample [[10, 11], [10, 11, 12, 13, 14 :: nat]] 2 7 0)
     = rng_after (cap_documents rotating_sample [[10, 11, 12, 13, 14 :: nat]] 2 7 0)"
  using maybe_cap_chunks_frame[of 2 "[10, 11 :: nat]" rotating_sample 7
      "[[10, 11], [10, 11, 12, 13, 14 :: nat]]" 0]
  by (simp add: over_cap_def)

section \<open>Properties of the Dataset Assembler\<close>

lemma int_trunc_max: "max 1 (int_trunc x) = max 1 \<lfloor>x\<rfloor>"
proof (cases "0 \<le> x")
  case True
  then show ?thesis by (simp add: int_trunc_def)
next
  case False
  then have "\<lfloor>x\<rfloor> \<le> 0" "\<lceil>x\<rceil> \<le> 0" by simp_all
  then show ?thesis using False by (simp add: int_trunc_def)
qed

text \<open>
  C4. With \<open>shuffled\<close> the record sequence after the shuffle and \<open>total\<close> its length, the
  validation size is \<open>max 1 (floor (total * val_ratio))\<close> when \<open>total > 0\<close> and 0 when
  \<open>total = 0\<close>; the validation set is the first validation-size records of \<open>shuffled\<close> and
  the training set is the rest, so their lengths add up to \<open>total\<close>, validation followed
  by training is \<open>shuffled\<close>, and no record (the records being pairwise distinct objects)
  is in both.
\<close>

theorem split_train_val_partition:
  assumes "shuffle rng all_records = (shuffled, rng')"
    and "split_train_val shuffle times_val_ratio all_records rng = (val_records, train_records)"
  shows "\<exists>v. v = (if 0 < length shuffled
                  then max 1 \<lfloor>times_val_ratio (length shuffled)\<rfloor> else 0) \<and>
         val_size_of times_val_ratio shuffled = v \<and>
         val_records = take (nat v) shuffled \<and> train_records = drop (nat v) shuffled \<and>
         length val_records + length train_records = length shuffled \<and>
         val_records @ train_records = shuffled \<and>
         (distinct shuffled \<longrightarrow> set val_records \<inter> set train_records = {})"
proof -
  define v where "v = (if 0 < length shuffled
                  then max 1 \<lfloor>times_val_ratio (length shuffled)\<rfloor> else 0)"
  have vs: "val_size_of times_val_ratio shuffled = v"
    unfolding v_def by (simp add: val_size_of_def int_trunc_max)
  have "0 \<le> v" unfolding v_def by (simp add: le_max_iff_disj)
  then have b: "slice_bound (length shuffled) v = min (length shuffled) (nat v)"
    by (simp add: slice_bound_def)
  have val: "val_records = take (nat v) shuffled"
    using assms(1,2) vs b by (auto simp add: split_train_val_def py_slice_to_def min_def)
  have train: "train_records = drop (nat v) shuffled"
    using assms(1,2) vs b by (auto simp add: split_train_val_def py_slice_from_def min_def)
  have "distinct shuffled \<longrightarrow> set val_records \<inter> set train_records = {}"
    unfolding val train using set_take_disj_set_drop_if_distinct[of shuffled "nat v" "nat v"]
    by simp
  then show ?thesis using vs val train v_def by simp
qed

theorem split_train_val_partition_witness:
  "rev_shuffle 9 [5, 6, 7, 8 :: nat] = ([8, 7, 6, 5], 10) \<and>
   split_train_val rev_shuffle (\<lambda>n. real n / 2) [5, 6, 7, 8 :: nat] 9 = ([8, 7], [6, 5]) \<and>
   val_size_of (\<lambda>n. real n / 2) [8, 7, 6, 5 :: nat] = 2 \<and>
   distinct [8, 7, 6, 5 :: nat] \<and>
   set [8, 7 :: nat] \<inter> set [6, 5] = {}"
proof -
  have a: "rev_shuffle 9 [5, 6, 7, 8 :: nat] = ([8, 7, 6, 5], 10)"
    by (simp add: rev_shuffle_def)
  have v: "val_size_of (\<lambda>n. real n / 2) [8, 7, 6, 5 :: nat] = 2"
    by (simp add: val_size_of_def int_trunc_def)
  have b: "split_train_val rev_shuffle (\<lambda>n. real n / 2) [5, 6, 7, 8 :: nat] 9 = ([8, 7], [6, 5])"
    by (simp add: split_train_val_def rev_shuffle_def v
        py_slice_to_def py_slice_from_def slice_bound_def)
  have "distinct [8, 7, 6, 5 :: nat] \<longrightarrow> set [8, 7 :: nat] \<inter> set [6, 5] = {}"
    using split_train_val_partition[OF a b] by blast
  then show ?thesis
    using a v b by simp
qed

end
